theory Spec2Isabelle
  imports Main "HOL-Library.Word" "HOL-Library.Multiset"
begin

unbundle bit_operations_syntax

section \<open>Keys and the two key combiners\<close>

text \<open>
  \<^verbatim>\<open>using Key = std::size_t;\<close> An unsigned machine word; the development fixes the
  64-bit width of the common targets. Addition wraps, \<open>push_bit\<close> is \<^verbatim>\<open><<\<close> and
  \<open>drop_bit\<close> is the logical \<^verbatim>\<open>>>\<close> of an unsigned operand.
\<close>

type_synonym Key = "64 word"

text \<open>
  \<^verbatim>\<open>GetHasher<KeyT>()\<close> hands out \<^verbatim>\<open>std::hash<KeyT>\<close>. The program only uses it at
  \<^verbatim>\<open>std::string\<close> and at \<^verbatim>\<open>std::size_t\<close>; what either of them computes is left to the
  standard library, so both are parameters of every function below:
  \<open>stringHasher :: string \<Rightarrow> Key\<close> and \<open>keyHasher :: Key \<Rightarrow> Key\<close>. The
  \<^verbatim>\<open>std::hash<std::size_t>\<close> of libstdc++ and of libc++ returns its argument; a statement
  about the program as built there takes \<open>\<lambda>key. key\<close> for \<open>keyHasher\<close>.
\<close>

text \<open>
  \<^verbatim>\<open>lhsKey ^= GetHasher<RhsKeyT>()(rhsKey) + 0x9e3779b9 + (lhsKey << 6) + (lhsKey >> 2);\<close>
  The updated \<open>lhsKey\<close> is returned.
\<close>

definition combineKeysUniquelyImpl :: "(Key \<Rightarrow> Key) \<Rightarrow> Key \<Rightarrow> Key \<Rightarrow> Key" where
  "combineKeysUniquelyImpl keyHasher lhsKey rhsKey =
     lhsKey XOR (keyHasher rhsKey + 0x9e3779b9 + push_bit 6 lhsKey + drop_bit 2 lhsKey)"

text \<open>
  \<^verbatim>\<open>Key result{}; (detail::combineKeysUniquelyImpl(result, keys), ...); return result;\<close>
  The comma fold visits the argument pack from left to right; the pack is a list.
\<close>

definition combineKeysUniquely :: "(Key \<Rightarrow> Key) \<Rightarrow> Key list \<Rightarrow> Key" where
  "combineKeysUniquely keyHasher keys = foldl (combineKeysUniquelyImpl keyHasher) 0 keys"

text \<open>
  \<^verbatim>\<open>return (keys ^ ...);\<close> A unary right fold: \<open>k1 ^ (k2 ^ (... ^ kn))\<close>. A unary fold
  over \<^verbatim>\<open>^\<close> has no value for an empty pack: that instantiation is ill-formed, which
  the model records as \<open>None\<close>.
\<close>

fun combineKeysLoosely :: "Key list \<Rightarrow> Key option" where
  "combineKeysLoosely [] = None"
| "combineKeysLoosely [key] = Some key"
| "combineKeysLoosely (key # keys) = map_option (\<lambda>rest. key XOR rest) (combineKeysLoosely keys)"

text \<open>
  Every call of \<^verbatim>\<open>combineKeysLoosely\<close> in the program passes exactly two keys; this is
  that instantiation, \<^verbatim>\<open>(lhs ^ rhs)\<close>.
\<close>

definition combineKeysLoosely2 :: "Key \<Rightarrow> Key \<Rightarrow> Key" where
  "combineKeysLoosely2 lhs rhs = lhs XOR rhs"

section \<open>The tree provider\<close>

text \<open>
  Modelled from the spec: the attribute handle of the tree provider (pugixml's
  \<^verbatim>\<open>xml_attribute\<close>, which is not part of the sources). An AttributeView is a read-only
  (name, value) pair of texts.
\<close>

datatype xml_attribute = xml_attribute (attribute_name: string) (attribute_value: string)

text \<open>
  Modelled from the spec: the node handle of the tree provider (pugixml's
  \<^verbatim>\<open>xml_node\<close>, which is not part of the sources). A NodeView exposes a tag name, a
  direct text value, a sequence of attributes and a sequence of child nodes; the tree is
  finite and acyclic by construction. An empty handle is not modelled: the spec counts a
  missing root as a precondition violation of the provider and does not say what the
  accessors answer on it.
\<close>

datatype xml_node = xml_node string string "xml_attribute list" "xml_node list"

text \<open>Modelled from the spec: \<^verbatim>\<open>node.name()\<close>, the tag name.\<close>

fun name :: "xml_node \<Rightarrow> string" where
  "name (xml_node n t as cs) = n"

text \<open>Modelled from the spec: \<^verbatim>\<open>node.child_value()\<close>, the direct text value.\<close>

fun child_value :: "xml_node \<Rightarrow> string" where
  "child_value (xml_node n t as cs) = t"

text \<open>
  Modelled from the spec: the attributes that
  \<^verbatim>\<open>first_attribute()\<close>/\<^verbatim>\<open>next_attribute()\<close> walk through, in the provider's order.
\<close>

fun attributes :: "xml_node \<Rightarrow> xml_attribute list" where
  "attributes (xml_node n t as cs) = as"

text \<open>
  Modelled from the spec: the children that \<^verbatim>\<open>node.begin()\<close> .. \<^verbatim>\<open>node.end()\<close> range
  over, in the provider's order.
\<close>

fun children :: "xml_node \<Rightarrow> xml_node list" where
  "children (xml_node n t as cs) = cs"

text \<open>
  Modelled from the spec: a DocumentView exposes a single root NodeView,
  \<^verbatim>\<open>document_element()\<close>.
\<close>

record xml_document =
  document_element :: xml_node

section \<open>Node keys\<close>

text \<open>
  \<^verbatim>\<open>computeAttributesKey\<close>: \<open>result\<close> starts as \<^verbatim>\<open>Key{}\<close>; the loop over the attributes
  replaces it by \<^verbatim>\<open>combineKeysLoosely(result, combineKeysUniquely(stringHasher(name),
  stringHasher(value)))\<close>.
\<close>

definition computeAttributesKey :: "(string \<Rightarrow> Key) \<Rightarrow> (Key \<Rightarrow> Key) \<Rightarrow> xml_node \<Rightarrow> Key" where
  "computeAttributesKey stringHasher keyHasher node =
     foldl (\<lambda>result attributeItr.
              combineKeysLoosely2 result
                (combineKeysUniquely keyHasher
                   [stringHasher (attribute_name attributeItr),
                    stringHasher (attribute_value attributeItr)]))
           0 (attributes node)"

text \<open>
  \<^verbatim>\<open>computeNodeKey\<close>: \<^verbatim>\<open>std::accumulate\<close> over the children from \<^verbatim>\<open>Key{}\<close> is a left
  fold; its result is combined uniquely with the hashes of the name and of the text and
  with the attributes key.
\<close>

function computeNodeKey :: "(string \<Rightarrow> Key) \<Rightarrow> (Key \<Rightarrow> Key) \<Rightarrow> xml_node \<Rightarrow> Key" where
  "computeNodeKey stringHasher keyHasher node =
     (let childrenKey =
            foldl (\<lambda>partialKey child.
                     combineKeysLoosely2 partialKey (computeNodeKey stringHasher keyHasher child))
                  0 (children node)
      in combineKeysUniquely keyHasher
           [stringHasher (name node),
            stringHasher (child_value node),
            computeAttributesKey stringHasher keyHasher node,
            childrenKey])"
  by pat_completeness auto
termination
proof (relation "measure (\<lambda>(stringHasher, keyHasher, node). size node)")
  show "wf (measure (\<lambda>(stringHasher, keyHasher, node). size node))"
    by simp
next
  fix stringHasher :: "string \<Rightarrow> Key" and keyHasher :: "Key \<Rightarrow> Key"
    and node child :: xml_node and partialKey :: Key
  assume "child \<in> set (children node)"
  then have "size child < size node"
    by (cases node) (auto simp: less_Suc_eq_le size_list_estimation')
  then show "((stringHasher, keyHasher, child), (stringHasher, keyHasher, node))
      \<in> measure (\<lambda>(stringHasher, keyHasher, node). size node)"
    by simp
qed

declare computeNodeKey.simps [simp del]

text \<open>\<^verbatim>\<open>matchXMLDocumentsLoosely\<close>: the two root keys are compared.\<close>

definition matchXMLDocumentsLoosely ::
  "(string \<Rightarrow> Key) \<Rightarrow> (Key \<Rightarrow> Key) \<Rightarrow> xml_document \<Rightarrow> xml_document \<Rightarrow> bool" where
  "matchXMLDocumentsLoosely stringHasher keyHasher lhsDocument rhsDocument =
     (let lhsDocumentKey = computeNodeKey stringHasher keyHasher (document_element lhsDocument);
          rhsDocumentKey = computeNodeKey stringHasher keyHasher (document_element rhsDocument)
      in lhsDocumentKey = rhsDocumentKey)"

section \<open>Notions of the specification\<close>

text \<open>
  The spec's wording of \<open>combineUniquely\<close>, which mixes the key itself:
  \<open>acc = acc XOR (key + MAGIC + (acc << 6) + (acc >> 2))\<close> from a zero accumulator, with
  \<open>MAGIC = 0x9e3779b9\<close>. It is compared with \<open>combineKeysUniquely\<close> below.
\<close>

definition combineUniquely_spec :: "Key list \<Rightarrow> Key" where
  "combineUniquely_spec keys =
     foldl (\<lambda>acc key. acc XOR (key + 0x9e3779b9 + push_bit 6 acc + drop_bit 2 acc)) 0 keys"

text \<open>
  Two nodes are loosely isomorphic when they have the same tag name and the same text,
  the same attributes up to their order, and children that correspond one to one, up to
  their order, to loosely isomorphic children.
\<close>

inductive loose_iso :: "xml_node \<Rightarrow> xml_node \<Rightarrow> bool" where
  loose_iso_node:
    "mset as = mset bs \<Longrightarrow> mset ds = mset ys \<Longrightarrow> list_all2 loose_iso xs ds \<Longrightarrow>
     loose_iso (xml_node n t as xs) (xml_node n t bs ys)"

section \<open>Auxiliary facts\<close>

lemma combineKeysLoosely_pair:
  "combineKeysLoosely [lhs, rhs] = Some (combineKeysLoosely2 lhs rhs)"
  by (simp add: combineKeysLoosely2_def)

lemma foldl_xor_shift: "foldl (XOR) a ks = a XOR foldl (XOR) (0::Key) ks"
proof (induction ks arbitrary: a)
  case Nil
  show ?case by simp
next
  case (Cons k ks)
  have "foldl (XOR) a (k # ks) = (a XOR k) XOR foldl (XOR) 0 ks"
    using Cons.IH [of "a XOR k"] by simp
  also have "\<dots> = a XOR (k XOR foldl (XOR) 0 ks)"
    by (simp add: xor.assoc)
  also have "k XOR foldl (XOR) 0 ks = foldl (XOR) 0 (k # ks)"
    using Cons.IH [of k] by simp
  finally show ?case .
qed

lemma foldl_xor_Cons: "foldl (XOR) (0::Key) (k # ks) = k XOR foldl (XOR) 0 ks"
  using foldl_xor_shift [of k ks] by simp

lemma foldl_xor_append:
  "foldl (XOR) (0::Key) (xs @ ys) = foldl (XOR) 0 xs XOR foldl (XOR) 0 ys"
  using foldl_xor_shift [of "foldl (XOR) 0 xs" ys] by simp

lemma foldl_xor_mset:
  assumes "mset xs = mset ys"
  shows "foldl (XOR) (0::Key) xs = foldl (XOR) 0 ys"
proof -
  have "fold (\<lambda>k acc. acc XOR k) xs (0::Key) = fold (\<lambda>k acc. acc XOR k) ys 0"
    by (rule arg_cong [where f = "\<lambda>f. f 0", OF fold_multiset_equiv [OF _ assms]])
       (simp add: fun_eq_iff xor.assoc xor.left_commute xor.commute)
  then show ?thesis by (simp add: foldl_conv_fold)
qed

lemma combineKeysLoosely_foldl:
  "combineKeysLoosely (k # ks) = Some (foldl (XOR) 0 (k # ks))"
proof (induction ks arbitrary: k)
  case Nil
  show ?case by simp
next
  case (Cons k' ks)
  show ?case
    using Cons.IH [of k'] foldl_xor_Cons [of k "k' # ks"] by simp
qed

lemma foldl_combineKeysLoosely2:
  "foldl (\<lambda>partialKey x. combineKeysLoosely2 partialKey (f x)) a xs =
     a XOR foldl (XOR) 0 (map f xs)"
proof (induction xs arbitrary: a)
  case Nil
  show ?case by simp
next
  case (Cons x xs)
  show ?case
    using Cons.IH [of "a XOR f x"] foldl_xor_Cons [of "f x" "map f xs"]
    by (simp add: combineKeysLoosely2_def xor.assoc)
qed

lemma computeAttributesKey_mset:
  assumes "mset (attributes n) = mset (attributes n')"
  shows "computeAttributesKey hs hk n = computeAttributesKey hs hk n'"
proof -
  let ?f = "\<lambda>a. combineKeysUniquely hk [hs (attribute_name a), hs (attribute_value a)]"
  have "mset (map ?f (attributes n)) = mset (map ?f (attributes n'))"
    using assms by (metis mset_map)
  then show ?thesis
    by (simp add: computeAttributesKey_def foldl_combineKeysLoosely2 foldl_xor_mset)
qed

lemma computeNodeKey_children:
  "computeNodeKey hs hk node =
     combineKeysUniquely hk
       [hs (name node), hs (child_value node), computeAttributesKey hs hk node,
        foldl (XOR) 0 (map (computeNodeKey hs hk) (children node))]"
  by (subst computeNodeKey.simps) (simp add: foldl_combineKeysLoosely2)

lemma computeNodeKey_cong_children:
  assumes "foldl (XOR) 0 (map (computeNodeKey hs hk) xs) =
           foldl (XOR) 0 (map (computeNodeKey hs hk) ys)"
  shows "computeNodeKey hs hk (xml_node n t as xs) = computeNodeKey hs hk (xml_node n t as ys)"
proof -
  have "computeAttributesKey hs hk (xml_node n t as xs) =
        computeAttributesKey hs hk (xml_node n t as ys)"
    by (simp add: computeAttributesKey_def)
  then show ?thesis
    by (simp add: computeNodeKey_children [of hs hk "xml_node n t as xs"]
        computeNodeKey_children [of hs hk "xml_node n t as ys"] assms)
qed

lemma loose_iso_computeNodeKey:
  assumes "loose_iso a b"
  shows "computeNodeKey hs hk a = computeNodeKey hs hk b"
  using assms
proof (induction rule: loose_iso.induct)
  case (loose_iso_node as bs ds ys xs n t)
  have "map (computeNodeKey hs hk) xs = map (computeNodeKey hs hk) ds"
    using loose_iso_node.IH by (induction rule: list_all2_induct) simp_all
  moreover have "mset (map (computeNodeKey hs hk) ds) = mset (map (computeNodeKey hs hk) ys)"
    using loose_iso_node.hyps(2) by (metis mset_map)
  ultimately have kids: "foldl (XOR) 0 (map (computeNodeKey hs hk) xs) =
      foldl (XOR) 0 (map (computeNodeKey hs hk) ys)"
    by (simp add: foldl_xor_mset)
  have attrs: "computeAttributesKey hs hk (xml_node n t as xs) =
      computeAttributesKey hs hk (xml_node n t bs ys)"
    by (rule computeAttributesKey_mset) (simp add: loose_iso_node.hyps(1))
  show ?case
    by (simp add: computeNodeKey_children [of hs hk "xml_node n t as xs"]
        computeNodeKey_children [of hs hk "xml_node n t bs ys"] kids attrs)
qed

lemma even_count_cancel:
  "foldl (XOR) (0::Key) (map f cs) =
     foldl (XOR) 0 (map f (removeAll c cs)) XOR (if even (count_list cs c) then 0 else f c)"
proof (induction cs)
  case Nil
  show ?case by simp
next
  case (Cons x cs)
  show ?case
    using Cons.IH
    by (simp add: foldl_xor_Cons xor.assoc xor.left_commute xor.commute del: foldl_Cons)
qed

section \<open>The key combiners\<close>

text \<open>
  C3: for every argument list of keys, \<open>combineKeysUniquely\<close> starts from a zero
  accumulator and, for each key in argument order, updates
  \<open>acc = acc XOR (key + 0x9e3779b9 + (acc << 6) + (acc >> 2))\<close>, returning the final
  accumulator: with the identity as \<^verbatim>\<open>std::hash<std::size_t>\<close> it is the spec's
  \<open>combineUniquely_spec\<close>. For any other key hash the same fold mixes the hash of each key
  in place of the key.
\<close>

theorem combineKeysUniquely_fold:
  "combineKeysUniquely (\<lambda>key. key) keys = combineUniquely_spec keys
   \<and> combineKeysUniquely keyHasher keys =
       foldl (\<lambda>acc key. acc XOR (keyHasher key + 0x9e3779b9 + push_bit 6 acc + drop_bit 2 acc))
         0 keys"
  by (simp add: combineKeysUniquely_def combineUniquely_spec_def combineKeysUniquelyImpl_def
      fun_eq_iff [symmetric] cong: foldl_cong)

text \<open>
  C4, as the code has it: \<open>combineKeysUniquely\<close> of no keys is the zero key;
  \<open>combineKeysLoosely\<close> has no instantiation for no keys (its unary fold over \<^verbatim>\<open>^\<close> is
  ill-formed for an empty pack).
\<close>

theorem combine_zero_arguments:
  "combineKeysUniquely keyHasher [] = 0 \<and> combineKeysLoosely [] = None"
  by (simp add: combineKeysUniquely_def)

text \<open>
  C4, as the spec words it, fails: \<open>combineKeysLoosely\<close> of no keys does not return the
  zero key.
\<close>

theorem combineKeysLoosely_empty_counterexample:
  "combineKeysLoosely [] \<noteq> Some 0"
  by simp

text \<open>
  C7: \<open>combineKeysUniquely\<close> is order-sensitive. For a key hash that reaches every key
  (the identity for one), there are two different keys that combine to different results
  in their two orders.
\<close>

theorem combineKeysUniquely_order_sensitive:
  assumes "surj keyHasher"
  shows "\<exists>k1 k2. k1 \<noteq> k2 \<and>
           combineKeysUniquely keyHasher [k1, k2] \<noteq> combineKeysUniquely keyHasher [k2, k1]"
proof -
  from assms obtain k1 where k1: "keyHasher k1 = - 0x9e3779b9"
    by (metis surjD)
  from assms obtain k2 where k2: "keyHasher k2 = 1 - 0x9e3779b9"
    by (metis surjD)
  have "k1 \<noteq> k2"
    using k1 k2 by auto
  moreover have "combineKeysUniquely keyHasher [k1, k2] \<noteq> combineKeysUniquely keyHasher [k2, k1]"
    using k1 k2 by (simp add: combineKeysUniquely_def combineKeysUniquelyImpl_def)
  ultimately show ?thesis by blast
qed

theorem combineKeysUniquely_order_sensitive_witness:
  "surj (\<lambda>k :: Key. k) \<and>
   (\<exists>k1 k2. k1 \<noteq> k2 \<and>
      combineKeysUniquely (\<lambda>k. k) [k1, k2] \<noteq> combineKeysUniquely (\<lambda>k. k) [k2, k1])"
proof -
  have h: "surj (\<lambda>k :: Key. k)"
    by (simp add: surj_def)
  show ?thesis
    using h combineKeysUniquely_order_sensitive [OF h] by simp
qed

text \<open>
  C9: the loose combination of a single key is that key; the unique combination of a
  single key is the hash of the key plus \<open>0x9e3779b9\<close>, so that even under an identity
  hash a key is never its own unique combination.
\<close>

theorem combine_single_key:
  "combineKeysLoosely [k] = Some k
   \<and> combineKeysUniquely keyHasher [k] = keyHasher k + 0x9e3779b9
   \<and> combineKeysUniquely (\<lambda>key. key) [k] \<noteq> k"
  by (simp add: combineKeysUniquely_def combineKeysUniquelyImpl_def)

text \<open>
  C2, as the code has it: \<open>combineKeysLoosely\<close> of at least one key is the accumulated
  bitwise XOR of its keys; its result does not change when the keys are permuted, nor
  when a zero key is inserted anywhere among at least one key.
\<close>

theorem combineKeysLoosely_xor:
  "(keys \<noteq> [] \<longrightarrow> combineKeysLoosely keys = Some (foldl (XOR) 0 keys))
   \<and> (mset keys = mset keys' \<longrightarrow> combineKeysLoosely keys = combineKeysLoosely keys')
   \<and> (xs @ ys \<noteq> [] \<longrightarrow> combineKeysLoosely (xs @ 0 # ys) = combineKeysLoosely (xs @ ys))"
proof (intro conjI impI)
  assume "keys \<noteq> []"
  then obtain k ks where "keys = k # ks"
    by (cases keys) auto
  then show "combineKeysLoosely keys = Some (foldl (XOR) 0 keys)"
    by (simp only: combineKeysLoosely_foldl)
next
  assume perm: "mset keys = mset keys'"
  show "combineKeysLoosely keys = combineKeysLoosely keys'"
  proof (cases keys)
    case Nil
    with perm show ?thesis by simp
  next
    case (Cons k ks)
    with perm obtain k' ks' where "keys' = k' # ks'"
      by (cases keys') auto
    with Cons perm show ?thesis
      by (simp only: combineKeysLoosely_foldl foldl_xor_mset [of "k # ks" "k' # ks'"])
  qed
next
  assume "xs @ ys \<noteq> []"
  then obtain k ks where ne: "xs @ ys = k # ks"
    by (cases "xs @ ys") auto
  obtain k' ks' where ne': "xs @ 0 # ys = k' # ks'"
    by (cases "xs @ 0 # ys") auto
  have without: "combineKeysLoosely (xs @ ys) = Some (foldl (XOR) 0 (xs @ ys))"
    by (simp only: ne combineKeysLoosely_foldl)
  have inserted: "combineKeysLoosely (xs @ 0 # ys) = Some (foldl (XOR) 0 (xs @ 0 # ys))"
    by (simp only: ne' combineKeysLoosely_foldl)
  have "foldl (XOR) (0::Key) (xs @ 0 # ys) = foldl (XOR) 0 (xs @ ys)"
    by (simp add: foldl_xor_append foldl_xor_Cons del: foldl_append foldl_Cons)
  then show "combineKeysLoosely (xs @ 0 # ys) = combineKeysLoosely (xs @ ys)"
    by (simp only: without inserted)
qed

text \<open>C2 at the keys 1, 2, 3, reordered as 3, 1, 2, and with a zero between 1 and 2.\<close>

theorem combineKeysLoosely_xor_witness:
  "[1, 2, 3 :: Key] \<noteq> [] \<and> combineKeysLoosely [1, 2, 3] = Some 0
   \<and> mset [1, 2, 3 :: Key] = mset [3, 1, 2]
   \<and> combineKeysLoosely [1, 2, 3] = combineKeysLoosely [3, 1, 2]
   \<and> [1 :: Key] @ [2] \<noteq> []
   \<and> combineKeysLoosely ([1] @ 0 # [2]) = combineKeysLoosely ([1] @ [2])"
proof -
  have h1: "[1, 2, 3 :: Key] \<noteq> []" by simp
  have h2: "mset [1, 2, 3 :: Key] = mset [3, 1, 2]" by simp
  have h3: "[1 :: Key] @ [2] \<noteq> []" by simp
  show ?thesis
    using h1 h2 h3 combineKeysLoosely_xor [of "[1, 2, 3]" "[3, 1, 2]" "[1]" "[2]"]
    by simp
qed

text \<open>
  C2, as the spec words it, fails at the empty pack: \<open>combineKeysLoosely\<close> of no keys is
  not the XOR accumulated over no keys, and inserting a zero key among no keys changes
  the result.
\<close>

theorem combineKeysLoosely_xor_empty_counterexample:
  "combineKeysLoosely [] \<noteq> Some (foldl (XOR) 0 [])
   \<and> combineKeysLoosely ([] @ 0 # []) \<noteq> combineKeysLoosely ([] @ [])"
  by simp

section \<open>Attribute and node keys\<close>

text \<open>
  C5: the attributes key of a node does not depend on the order of its attributes: two
  nodes whose attribute sequences are permutations of each other have the same attributes
  key. A node without attributes has the zero key.
\<close>

theorem computeAttributesKey_order_invariant:
  "(mset (attributes node) = mset (attributes node') \<longrightarrow>
      computeAttributesKey stringHasher keyHasher node =
      computeAttributesKey stringHasher keyHasher node')
   \<and> (attributes node = [] \<longrightarrow> computeAttributesKey stringHasher keyHasher node = 0)"
proof (intro conjI impI)
  assume "mset (attributes node) = mset (attributes node')"
  then show "computeAttributesKey stringHasher keyHasher node =
      computeAttributesKey stringHasher keyHasher node'"
    by (rule computeAttributesKey_mset)
next
  assume "attributes node = []"
  then show "computeAttributesKey stringHasher keyHasher node = 0"
    by (simp add: computeAttributesKey_def)
qed

text \<open>C5 at \<^verbatim>\<open><r a="1" b="2"/>\<close> against \<^verbatim>\<open><r b="2" a="1"/>\<close>, and at \<^verbatim>\<open><r/>\<close>.\<close>

theorem computeAttributesKey_order_invariant_witness:
  "mset (attributes (xml_node ''r'' [] [xml_attribute ''a'' ''1'', xml_attribute ''b'' ''2''] []))
     = mset (attributes (xml_node ''r'' [] [xml_attribute ''b'' ''2'', xml_attribute ''a'' ''1''] []))
   \<and> computeAttributesKey (\<lambda>s. of_nat (length s)) (\<lambda>k. k)
        (xml_node ''r'' [] [xml_attribute ''a'' ''1'', xml_attribute ''b'' ''2''] [])
     = computeAttributesKey (\<lambda>s. of_nat (length s)) (\<lambda>k. k)
        (xml_node ''r'' [] [xml_attribute ''b'' ''2'', xml_attribute ''a'' ''1''] [])
   \<and> attributes (xml_node ''r'' [] [] []) = []
   \<and> computeAttributesKey (\<lambda>s. of_nat (length s)) (\<lambda>k. k) (xml_node ''r'' [] [] []) = 0"
proof -
  have h1: "mset (attributes (xml_node ''r'' [] [xml_attribute ''a'' ''1'', xml_attribute ''b'' ''2''] []))
     = mset (attributes (xml_node ''r'' [] [xml_attribute ''b'' ''2'', xml_attribute ''a'' ''1''] []))"
    by simp
  have h2: "attributes (xml_node ''r'' [] [] []) = []"
    by simp
  show ?thesis
    using h1 h2
      computeAttributesKey_order_invariant
        [of "xml_node ''r'' [] [xml_attribute ''a'' ''1'', xml_attribute ''b'' ''2''] []"
            "xml_node ''r'' [] [xml_attribute ''b'' ''2'', xml_attribute ''a'' ''1''] []"
            "\<lambda>s. of_nat (length s)" "\<lambda>k. k"]
      computeAttributesKey_order_invariant
        [of "xml_node ''r'' [] [] []" "xml_node ''r'' [] [] []"
            "\<lambda>s. of_nat (length s)" "\<lambda>k. k"]
    by simp
qed

text \<open>
  C6: swapping the two children of a node with children \<open>[c1, c2]\<close> leaves the key of the
  node unchanged.
\<close>

theorem computeNodeKey_swap_children:
  "computeNodeKey stringHasher keyHasher (xml_node n t as [c1, c2]) =
   computeNodeKey stringHasher keyHasher (xml_node n t as [c2, c1])"
  by (rule computeNodeKey_cong_children) (simp add: xor.commute)

text \<open>
  C8: the children are folded with XOR, so children with equal keys cancel. A node in
  which a subtree occurs an even number of times among the children has the key of the
  same node with those occurrences removed; two children with equal keys can be dropped;
  a node with exactly two identical children has the key of that node without children,
  although the two nodes differ, and the documents with these roots match.
\<close>

theorem computeNodeKey_even_cancel:
  "(even (count_list cs c) \<longrightarrow>
      computeNodeKey stringHasher keyHasher (xml_node n t as cs) =
      computeNodeKey stringHasher keyHasher (xml_node n t as (removeAll c cs)))
   \<and> (computeNodeKey stringHasher keyHasher c1 = computeNodeKey stringHasher keyHasher c2 \<longrightarrow>
      computeNodeKey stringHasher keyHasher (xml_node n t as (c1 # c2 # cs)) =
      computeNodeKey stringHasher keyHasher (xml_node n t as cs))
   \<and> computeNodeKey stringHasher keyHasher (xml_node n t as [c, c]) =
      computeNodeKey stringHasher keyHasher (xml_node n t as [])
   \<and> xml_node n t as [c, c] \<noteq> xml_node n t as []
   \<and> matchXMLDocumentsLoosely stringHasher keyHasher
        \<lparr>document_element = xml_node n t as [c, c]\<rparr>
        \<lparr>document_element = xml_node n t as []\<rparr>"
proof (intro conjI impI)
  assume "even (count_list cs c)"
  then have "foldl (XOR) 0 (map (computeNodeKey stringHasher keyHasher) cs) =
      foldl (XOR) 0 (map (computeNodeKey stringHasher keyHasher) (removeAll c cs))"
    using even_count_cancel [of "computeNodeKey stringHasher keyHasher" cs c] by simp
  then show "computeNodeKey stringHasher keyHasher (xml_node n t as cs) =
      computeNodeKey stringHasher keyHasher (xml_node n t as (removeAll c cs))"
    by (rule computeNodeKey_cong_children)
next
  assume "computeNodeKey stringHasher keyHasher c1 = computeNodeKey stringHasher keyHasher c2"
  then have "foldl (XOR) 0 (map (computeNodeKey stringHasher keyHasher) (c1 # c2 # cs)) =
      foldl (XOR) 0 (map (computeNodeKey stringHasher keyHasher) cs)"
    by (simp add: foldl_xor_Cons del: foldl_Cons)
  then show "computeNodeKey stringHasher keyHasher (xml_node n t as (c1 # c2 # cs)) =
      computeNodeKey stringHasher keyHasher (xml_node n t as cs)"
    by (rule computeNodeKey_cong_children)
next
  have two: "computeNodeKey stringHasher keyHasher (xml_node n t as [c, c]) =
      computeNodeKey stringHasher keyHasher (xml_node n t as [])"
    by (rule computeNodeKey_cong_children) simp
  show "computeNodeKey stringHasher keyHasher (xml_node n t as [c, c]) =
      computeNodeKey stringHasher keyHasher (xml_node n t as [])"
    by (rule two)
  show "matchXMLDocumentsLoosely stringHasher keyHasher
        \<lparr>document_element = xml_node n t as [c, c]\<rparr>
        \<lparr>document_element = xml_node n t as []\<rparr>"
    by (simp add: matchXMLDocumentsLoosely_def two)
next
  show "xml_node n t as [c, c] \<noteq> xml_node n t as []"
    by simp
qed

text \<open>
  C8 at \<^verbatim>\<open><r><x/><y/><x/></r>\<close>, which has the key of \<^verbatim>\<open><r><y/></r>\<close>, and with two
  more \<^verbatim>\<open><x/>\<close> in front.
\<close>

theorem computeNodeKey_even_cancel_witness:
  "even (count_list [xml_node ''x'' [] [] [], xml_node ''y'' [] [] [], xml_node ''x'' [] [] []]
           (xml_node ''x'' [] [] []))
   \<and> computeNodeKey (\<lambda>s. of_nat (length s)) (\<lambda>k. k)
        (xml_node ''r'' [] []
           [xml_node ''x'' [] [] [], xml_node ''y'' [] [] [], xml_node ''x'' [] [] []])
     = computeNodeKey (\<lambda>s. of_nat (length s)) (\<lambda>k. k)
        (xml_node ''r'' [] [] [xml_node ''y'' [] [] []])
   \<and> computeNodeKey (\<lambda>s. of_nat (length s)) (\<lambda>k. k) (xml_node ''x'' [] [] [])
     = computeNodeKey (\<lambda>s. of_nat (length s)) (\<lambda>k. k) (xml_node ''x'' [] [] [])
   \<and> computeNodeKey (\<lambda>s. of_nat (length s)) (\<lambda>k. k)
        (xml_node ''r'' [] []
           (xml_node ''x'' [] [] [] # xml_node ''x'' [] [] [] #
            [xml_node ''x'' [] [] [], xml_node ''y'' [] [] [], xml_node ''x'' [] [] []]))
     = computeNodeKey (\<lambda>s. of_nat (length s)) (\<lambda>k. k)
        (xml_node ''r'' [] []
           [xml_node ''x'' [] [] [], xml_node ''y'' [] [] [], xml_node ''x'' [] [] []])"
proof -
  note inst = computeNodeKey_even_cancel
    [of "[xml_node ''x'' [] [] [], xml_node ''y'' [] [] [], xml_node ''x'' [] [] []]"
        "xml_node ''x'' [] [] []" "\<lambda>s. of_nat (length s)" "\<lambda>k. k" "''r''" "[]" "[]"
        "xml_node ''x'' [] [] []" "xml_node ''x'' [] [] []"]
  have h: "even (count_list
      [xml_node ''x'' [] [] [], xml_node ''y'' [] [] [], xml_node ''x'' [] [] []]
      (xml_node ''x'' [] [] []))"
    by simp
  have removed: "removeAll (xml_node ''x'' [] [] [])
      [xml_node ''x'' [] [] [], xml_node ''y'' [] [] [], xml_node ''x'' [] [] []] =
      [xml_node ''y'' [] [] []]"
    by simp
  have even_removed: "computeNodeKey (\<lambda>s. of_nat (length s)) (\<lambda>k. k)
        (xml_node ''r'' [] []
           [xml_node ''x'' [] [] [], xml_node ''y'' [] [] [], xml_node ''x'' [] [] []])
     = computeNodeKey (\<lambda>s. of_nat (length s)) (\<lambda>k. k)
        (xml_node ''r'' [] [] [xml_node ''y'' [] [] []])"
    using inst [THEN conjunct1, THEN mp, OF h] by (simp only: removed)
  show ?thesis
    by (intro conjI h even_removed refl
        inst [THEN conjunct2, THEN conjunct1, THEN mp, OF refl])
qed

section \<open>Document matching\<close>

text \<open>
  C1: two documents whose roots are loosely isomorphic (same tag names, texts and
  attribute name/value pairs at every level, up to the order of attributes and of sibling
  children) match; and matching is the equality of the two root keys.
\<close>

theorem matchXMLDocumentsLoosely_iso:
  "(loose_iso (document_element lhsDocument) (document_element rhsDocument) \<longrightarrow>
      matchXMLDocumentsLoosely stringHasher keyHasher lhsDocument rhsDocument)
   \<and> matchXMLDocumentsLoosely stringHasher keyHasher lhsDocument rhsDocument =
       (computeNodeKey stringHasher keyHasher (document_element lhsDocument) =
        computeNodeKey stringHasher keyHasher (document_element rhsDocument))"
  using loose_iso_computeNodeKey
    [of "document_element lhsDocument" "document_element rhsDocument" stringHasher keyHasher]
  by (simp add: matchXMLDocumentsLoosely_def)

text \<open>
  C1 at \<^verbatim>\<open><r a="1" b="2"><x/><y>hello</y></r>\<close> against
  \<^verbatim>\<open><r b="2" a="1"><y>hello</y><x/></r>\<close>.
\<close>

theorem matchXMLDocumentsLoosely_iso_witness:
  "loose_iso
     (xml_node ''r'' [] [xml_attribute ''a'' ''1'', xml_attribute ''b'' ''2'']
        [xml_node ''x'' [] [] [], xml_node ''y'' ''hello'' [] []])
     (xml_node ''r'' [] [xml_attribute ''b'' ''2'', xml_attribute ''a'' ''1'']
        [xml_node ''y'' ''hello'' [] [], xml_node ''x'' [] [] []])
   \<and> matchXMLDocumentsLoosely (\<lambda>s. of_nat (length s)) (\<lambda>k. k)
       \<lparr>document_element =
          xml_node ''r'' [] [xml_attribute ''a'' ''1'', xml_attribute ''b'' ''2'']
            [xml_node ''x'' [] [] [], xml_node ''y'' ''hello'' [] []]\<rparr>
       \<lparr>document_element =
          xml_node ''r'' [] [xml_attribute ''b'' ''2'', xml_attribute ''a'' ''1'']
            [xml_node ''y'' ''hello'' [] [], xml_node ''x'' [] [] []]\<rparr>"
proof -
  have x: "loose_iso (xml_node ''x'' [] [] []) (xml_node ''x'' [] [] [])"
    by (rule loose_iso_node [where ds = "[]"]) simp_all
  have y: "loose_iso (xml_node ''y'' ''hello'' [] []) (xml_node ''y'' ''hello'' [] [])"
    by (rule loose_iso_node [where ds = "[]"]) simp_all
  have h: "loose_iso
     (xml_node ''r'' [] [xml_attribute ''a'' ''1'', xml_attribute ''b'' ''2'']
        [xml_node ''x'' [] [] [], xml_node ''y'' ''hello'' [] []])
     (xml_node ''r'' [] [xml_attribute ''b'' ''2'', xml_attribute ''a'' ''1'']
        [xml_node ''y'' ''hello'' [] [], xml_node ''x'' [] [] []])"
    by (rule loose_iso_node
          [where ds = "[xml_node ''x'' [] [] [], xml_node ''y'' ''hello'' [] []]"])
       (simp_all add: x y)
  show ?thesis
    using h
      matchXMLDocumentsLoosely_iso
        [of "\<lparr>document_element =
               xml_node ''r'' [] [xml_attribute ''a'' ''1'', xml_attribute ''b'' ''2'']
                 [xml_node ''x'' [] [] [], xml_node ''y'' ''hello'' [] []]\<rparr>"
            "\<lparr>document_element =
               xml_node ''r'' [] [xml_attribute ''b'' ''2'', xml_attribute ''a'' ''1'']
                 [xml_node ''y'' ''hello'' [] [], xml_node ''x'' [] [] []]\<rparr>"
            "\<lambda>s. of_nat (length s)" "\<lambda>k. k"]
    by simp
qed

end
